theory Spec2Isabelle
  imports Complex_Main "HOL-Library.AList" "HOL-Library.Multiset"
begin

section \<open>Ranking metrics of the music recommendation notebook\<close>

text \<open>
  The notebook \<^verbatim>\<open>music_recommendation.ipynb\<close> evaluates the batch predictions with
  three code cells: the loop that fills \<^verbatim>\<open>precision_at_k\<close> and \<^verbatim>\<open>recall_at_k\<close>,
  the function \<^verbatim>\<open>calculate_ap\<close>, and the list comprehension \<^verbatim>\<open>map_at_k\<close>.
  This theory embeds those cells and proves properties of them.

  Numbers. The metric values are numpy \<^verbatim>\<open>float64\<close> scalars. A finite value is a
  real number. Numpy's true division does not raise on a zero divisor but yields
  \<^verbatim>\<open>nan\<close> or an infinity (with a warning only), and these values propagate through
  addition and division. Signed zeros are not distinguished.

  Rounding. In the precision, recall and average-precision cells the arithmetic is
  exact: the properties proved of them are about which numbers are added and divided,
  and in which order. In the \<^verbatim>\<open>map_at_k\<close> cell every sum and quotient is rounded to
  float64, since whether the order of the users matters there is a question about
  rounding.
\<close>

subsection \<open>Python exceptions and numpy scalars\<close>

datatype py_exception = KeyError | IndexError | ZeroDivisionError

datatype npfloat = Fin real | PInf | NInf | NaN

text \<open>\<^verbatim>\<open>x + y\<close> on float64 scalars, without rounding.\<close>

fun np_add :: "npfloat \<Rightarrow> npfloat \<Rightarrow> npfloat" where
  "np_add NaN y = NaN"
| "np_add x NaN = NaN"
| "np_add (Fin a) (Fin b) = Fin (a + b)"
| "np_add (Fin a) y = y"
| "np_add x (Fin b) = x"
| "np_add PInf PInf = PInf"
| "np_add NInf NInf = NInf"
| "np_add PInf NInf = NaN"
| "np_add NInf PInf = NaN"

text \<open>
  \<^verbatim>\<open>x / d\<close>, without rounding, where \<^verbatim>\<open>x\<close> is a numpy scalar and \<^verbatim>\<open>d\<close> is a
  finite number (a Python \<^verbatim>\<open>int\<close> or a finite numpy scalar): every divisor in the
  three cells is of that kind.
\<close>

fun np_truediv :: "npfloat \<Rightarrow> real \<Rightarrow> npfloat" where
  "np_truediv NaN d = NaN"
| "np_truediv (Fin a) d =
     (if d \<noteq> 0 then Fin (a / d)
      else if a = 0 then NaN
      else if 0 < a then PInf else NInf)"
| "np_truediv PInf d = (if 0 \<le> d then PInf else NInf)"
| "np_truediv NInf d = (if 0 \<le> d then NInf else PInf)"

text \<open>The sum of a list of scalars, from 0 and from left to right, without rounding.\<close>

definition np_sum :: "npfloat list \<Rightarrow> npfloat" where
  "np_sum vs = foldl np_add (Fin 0) vs"

subsection \<open>Rounding to float64\<close>

text \<open>
  The float64 nearest to a real number, ties to the even significand: 53 significant
  bits, binary exponents from -1022 to 1023, the fixed spacing \<open>2 ^ (-1074)\<close> below
  that range, and an infinity when the rounded value reaches \<open>2 ^ 1024\<close>.
\<close>

fun bit_length :: "nat \<Rightarrow> nat" where
  "bit_length n = (if n = 0 then 0 else Suc (bit_length (n div 2)))"

declare bit_length.simps [simp del]

definition two_power :: "int \<Rightarrow> real" where
  "two_power e = (if 0 \<le> e then 2 ^ nat e else 1 / 2 ^ nat (- e))"

text \<open>The exponent \<open>e\<close> with \<open>2 ^ e \<le> \<bar>x\<bar> < 2 ^ (e + 1)\<close>, for \<open>x\<close> other than 0.\<close>

definition binary_exponent :: "real \<Rightarrow> int" where
  "binary_exponent x =
     (if 1 \<le> \<bar>x\<bar> then int (bit_length (nat \<lfloor>\<bar>x\<bar>\<rfloor>)) - 1
      else - int (bit_length (nat (\<lceil>1 / \<bar>x\<bar>\<rceil> - 1))))"

definition round_half_even :: "real \<Rightarrow> int" where
  "round_half_even y =
     (if y - real_of_int \<lfloor>y\<rfloor> < 1 / 2 then \<lfloor>y\<rfloor>
      else if 1 / 2 < y - real_of_int \<lfloor>y\<rfloor> then \<lfloor>y\<rfloor> + 1
      else if even \<lfloor>y\<rfloor> then \<lfloor>y\<rfloor> else \<lfloor>y\<rfloor> + 1)"

text \<open>The distance between neighbouring float64 values around \<open>x\<close>.\<close>

definition f64_spacing :: "real \<Rightarrow> real" where
  "f64_spacing x = two_power (max (binary_exponent x) (- 1022) - 52)"

definition f64_round :: "real \<Rightarrow> npfloat" where
  "f64_round x =
     (if x = 0 then Fin 0
      else if two_power 1024
                \<le> \<bar>real_of_int (round_half_even (x / f64_spacing x)) * f64_spacing x\<bar>
      then (if 0 < x then PInf else NInf)
      else Fin (real_of_int (round_half_even (x / f64_spacing x)) * f64_spacing x))"

text \<open>\<^verbatim>\<open>x + y\<close> on float64 scalars, with the rounding of the sum.\<close>

fun f64_add :: "npfloat \<Rightarrow> npfloat \<Rightarrow> npfloat" where
  "f64_add (Fin a) (Fin b) = f64_round (a + b)"
| "f64_add x y = np_add x y"

text \<open>\<^verbatim>\<open>x / d\<close> for a float64 scalar and a finite divisor, with the rounding of the
  quotient.\<close>

fun f64_truediv :: "npfloat \<Rightarrow> real \<Rightarrow> npfloat" where
  "f64_truediv (Fin a) d = (if d \<noteq> 0 then f64_round (a / d) else np_truediv (Fin a) d)"
| "f64_truediv x d = np_truediv x d"

text \<open>
  The builtin \<^verbatim>\<open>sum(vs)\<close> on a list of float64 scalars: it starts from the integer 0
  and adds from left to right, rounding each partial sum.
\<close>

definition f64_sum :: "npfloat list \<Rightarrow> npfloat" where
  "f64_sum vs = foldl f64_add (Fin 0) vs"

text \<open>A scalar that a float64 can hold.\<close>

definition is_f64 :: "npfloat \<Rightarrow> bool" where
  "is_f64 v = (case v of Fin x \<Rightarrow> f64_round x = Fin x | _ \<Rightarrow> True)"

subsection \<open>Python sequences\<close>

text \<open>\<^verbatim>\<open>xs[i]\<close> on a list: a negative index counts from the end, out of range raises.\<close>

definition py_index :: "'a list \<Rightarrow> int \<Rightarrow> py_exception + 'a" where
  "py_index xs i =
     (if 0 \<le> i \<and> i < int (length xs) then Inr (xs ! nat i)
      else if i < 0 \<and> - int (length xs) \<le> i then Inr (xs ! nat (int (length xs) + i))
      else Inl IndexError)"

text \<open>
  \<^verbatim>\<open>xs[:k]\<close> on a list or on a pandas Series (an integer slice of a Series is
  positional): never raises, stops at the end of the sequence, and a negative bound
  counts from the end.
\<close>

definition py_slice_to :: "'a list \<Rightarrow> int \<Rightarrow> 'a list" where
  "py_slice_to xs k =
     (if 0 \<le> k then take (nat k) xs else take (nat (int (length xs) + k)) xs)"

text \<open>\<^verbatim>\<open>range(a, b)\<close>.\<close>

definition py_range :: "int \<Rightarrow> int \<Rightarrow> int list" where
  "py_range a b = [a..b - 1]"

subsection \<open>The data frame\<close>

text \<open>
  A row of \<^verbatim>\<open>df\<close>, the result of the evaluation query, ordered by descending score
  over all users. The label comes from \<^verbatim>\<open>IF(user_song_listens > 2, 1, 0)\<close> through a
  \<^verbatim>\<open>LEFT JOIN\<close>, so it is an integer or missing. The columns \<^verbatim>\<open>rank\<close> and
  \<^verbatim>\<open>user_rank\<close> are never read by the cells below and are left out.
\<close>

record row =
  user :: string
  song :: string
  score :: real
  label :: "int option"

text \<open>\<^verbatim>\<open>df["label"]\<close>.\<close>

definition label_column :: "row list \<Rightarrow> int option list" where
  "label_column df = map label df"

text \<open>\<^verbatim>\<open>Series.sum()\<close>: missing values are skipped.\<close>

definition series_sum :: "int option list \<Rightarrow> int" where
  "series_sum s = sum_list (map (\<lambda>l. case l of None \<Rightarrow> 0 | Some v \<Rightarrow> v) s)"

text \<open>
  The dtype of the column decides what kind of number \<^verbatim>\<open>sum()\<close> returns. A column
  that holds at least one number is numeric (\<^verbatim>\<open>int64\<close>, or \<^verbatim>\<open>float64\<close> with
  \<^verbatim>\<open>nan\<close> for the missing labels): its sum is a numpy scalar. A column that holds no
  number at all (every label missing, or no row) has dtype \<^verbatim>\<open>object\<close>: its sum is
  the Python integer 0. A slice has the dtype of its column.
\<close>

definition numeric_column :: "int option list \<Rightarrow> bool" where
  "numeric_column s = (\<exists>l \<in> set s. l \<noteq> None)"

text \<open>
  \<^verbatim>\<open>x / d\<close> where \<^verbatim>\<open>x\<close> is the sum of a slice of the label column and \<^verbatim>\<open>d\<close>
  is \<^verbatim>\<open>k\<close> or the sum of the column. On a numeric column this is numpy's division,
  which does not raise. On an object column both operands are Python integers, and
  Python's division raises on a zero divisor.
\<close>

definition series_truediv :: "bool \<Rightarrow> int \<Rightarrow> int \<Rightarrow> py_exception + npfloat" where
  "series_truediv numeric x d =
     (if numeric then Inr (np_truediv (Fin (real_of_int x)) (real_of_int d))
      else if d = 0 then Inl ZeroDivisionError
      else Inr (Fin (real_of_int x / real_of_int d)))"

subsection \<open>Precision and recall at k\<close>

text \<open>
  \<^verbatim>\<open>precision = df["label"][:k].sum() / k\<close> and
  \<^verbatim>\<open>recall = df["label"][:k].sum() / df["label"].sum()\<close>.
\<close>

definition precision :: "row list \<Rightarrow> int \<Rightarrow> py_exception + npfloat" where
  "precision df k =
     series_truediv (numeric_column (label_column df))
       (series_sum (py_slice_to (label_column df) k)) k"

definition recall :: "row list \<Rightarrow> int \<Rightarrow> py_exception + npfloat" where
  "recall df k =
     series_truediv (numeric_column (label_column df))
       (series_sum (py_slice_to (label_column df) k)) (series_sum (label_column df))"

text \<open>The two quotients as numpy computes them, for the statements below.\<close>

abbreviation np_precision :: "row list \<Rightarrow> int \<Rightarrow> npfloat" where
  "np_precision df k \<equiv>
     np_truediv (Fin (real_of_int (series_sum (py_slice_to (label_column df) k))))
       (real_of_int k)"

abbreviation np_recall :: "row list \<Rightarrow> int \<Rightarrow> npfloat" where
  "np_recall df k \<equiv>
     np_truediv (Fin (real_of_int (series_sum (py_slice_to (label_column df) k))))
       (real_of_int (series_sum (label_column df)))"

text \<open>
  A dictionary keeps its keys in insertion order; assigning to an existing key keeps
  the key's place. That is \<^const>\<open>AList.update\<close> on an association list, with
  \<^const>\<open>map_of\<close> for the lookup.
\<close>

type_synonym 'v dict = "(string \<times> 'v) list"

definition dict_get :: "'v dict \<Rightarrow> string \<Rightarrow> py_exception + 'v" where
  "dict_get d key = (case map_of d key of None \<Rightarrow> Inl KeyError | Some v \<Rightarrow> Inr v)"

text \<open>
  The inner loop \<^verbatim>\<open>for k in range(1, 1000)\<close>, run for one \<^verbatim>\<open>user\<close>: it computes
  the two values, then appends them to the two lists stored under that user. The data
  frame is not filtered by the user.
\<close>

fun k_loop ::
  "row list \<Rightarrow> string \<Rightarrow> int list \<Rightarrow> npfloat list dict \<times> npfloat list dict \<Rightarrow>
   py_exception + (npfloat list dict \<times> npfloat list dict)" where
  "k_loop df usr [] st = Inr st"
| "k_loop df usr (k # ks) (precision_at_k, recall_at_k) =
     (case precision df k of
        Inl e \<Rightarrow> Inl e
      | Inr p \<Rightarrow>
         (case recall df k of
            Inl e \<Rightarrow> Inl e
          | Inr r \<Rightarrow>
             (case dict_get precision_at_k usr of
                Inl e \<Rightarrow> Inl e
              | Inr ps \<Rightarrow>
                 (case dict_get recall_at_k usr of
                    Inl e \<Rightarrow> Inl e
                  | Inr rs \<Rightarrow>
                      k_loop df usr ks
                        (AList.update usr (ps @ [p]) precision_at_k,
                         AList.update usr (rs @ [r]) recall_at_k)))))"

text \<open>The outer loop \<^verbatim>\<open>for user in users\<close>.\<close>

fun user_loop ::
  "row list \<Rightarrow> string list \<Rightarrow> npfloat list dict \<times> npfloat list dict \<Rightarrow>
   py_exception + (npfloat list dict \<times> npfloat list dict)" where
  "user_loop df [] st = Inr st"
| "user_loop df (usr # us) (precision_at_k, recall_at_k) =
     (case k_loop df usr (py_range 1 1000)
             (AList.update usr [] precision_at_k, AList.update usr [] recall_at_k) of
        Inl e \<Rightarrow> Inl e
      | Inr st \<Rightarrow> user_loop df us st)"

text \<open>The whole cell, from the two empty dictionaries.\<close>

definition precision_recall_cell ::
  "string list \<Rightarrow> row list \<Rightarrow> py_exception + (npfloat list dict \<times> npfloat list dict)" where
  "precision_recall_cell users df = user_loop df users ([], [])"

subsection \<open>Average precision\<close>

text \<open>
  \<^verbatim>\<open>for p in precision[1:]: ap.append(ap[-1] + p)\<close>, with the accumulator \<^verbatim>\<open>ap\<close>
  as the first argument.
\<close>

fun ap_loop :: "npfloat list \<Rightarrow> npfloat list \<Rightarrow> py_exception + npfloat list" where
  "ap_loop ap [] = Inr ap"
| "ap_loop ap (p # ps) =
     (case py_index ap (- 1) of
        Inl e \<Rightarrow> Inl e
      | Inr l \<Rightarrow> ap_loop (ap @ [np_add l p]) ps)"

text \<open>\<^verbatim>\<open>[x / (n + 1) for x, n in zip(ap, range(len(ap)))]\<close>.\<close>

definition ap_divide :: "npfloat list \<Rightarrow> npfloat list" where
  "ap_divide ap =
     map (\<lambda>(x, n). np_truediv x (real_of_int (n + 1)))
       (zip ap (py_range 0 (int (length ap))))"

definition calculate_ap :: "npfloat list \<Rightarrow> py_exception + npfloat list" where
  "calculate_ap precision_seq =
     (case py_index precision_seq 0 of
        Inl e \<Rightarrow> Inl e
      | Inr p0 \<Rightarrow>
         (case ap_loop [p0] (drop 1 precision_seq) of
            Inl e \<Rightarrow> Inl e
          | Inr ap \<Rightarrow> Inr (ap_divide ap)))"

subsection \<open>Mean average precision\<close>

text \<open>A list comprehension whose body may raise: the first exception ends it.\<close>

fun comprehension :: "('a \<Rightarrow> py_exception + 'b) \<Rightarrow> 'a list \<Rightarrow> py_exception + 'b list" where
  "comprehension f [] = Inr []"
| "comprehension f (x # xs) =
     (case f x of
        Inl e \<Rightarrow> Inl e
      | Inr y \<Rightarrow>
         (case comprehension f xs of
            Inl e \<Rightarrow> Inl e
          | Inr ys \<Rightarrow> Inr (y # ys)))"

text \<open>
  \<^verbatim>\<open>ap_at_k = {user: calculate_ap(pk) for user, pk in precision_at_k.items()}\<close>.
  The keys of a dictionary are distinct, so the items in their order are the new
  dictionary.
\<close>

definition ap_at_k_cell :: "npfloat list dict \<Rightarrow> py_exception + npfloat list dict" where
  "ap_at_k_cell precision_at_k =
     comprehension
       (\<lambda>(usr, pk). case calculate_ap pk of Inl e \<Rightarrow> Inl e | Inr ap \<Rightarrow> Inr (usr, ap))
       precision_at_k"

text \<open>\<^verbatim>\<open>ap_at_k[user][k]\<close>.\<close>

definition ap_entry :: "npfloat list dict \<Rightarrow> int \<Rightarrow> string \<Rightarrow> py_exception + npfloat" where
  "ap_entry ap_at_k k usr =
     (case dict_get ap_at_k usr of
        Inl e \<Rightarrow> Inl e
      | Inr curve \<Rightarrow> py_index curve k)"

text \<open>
  \<^verbatim>\<open>sum(vs) / n\<close> for a list of numpy scalars and a Python integer: the sum of the
  empty list is the Python integer 0, whose division by 0 raises; a numpy scalar
  divided by 0 does not.
\<close>

definition sum_div :: "npfloat list \<Rightarrow> nat \<Rightarrow> py_exception + npfloat" where
  "sum_div vs n =
     (if vs = [] then (if n = 0 then Inl ZeroDivisionError else Inr (Fin 0))
      else Inr (f64_truediv (f64_sum vs) (real n)))"

text \<open>
  One entry of \<^verbatim>\<open>map_at_k\<close>:
  \<^verbatim>\<open>sum([ap_at_k[user][k] for user in users]) / len(users)\<close>.
  The index \<^verbatim>\<open>k\<close> counts from 0: the entry at index \<^verbatim>\<open>k\<close> is the MAP at cutoff
  \<^verbatim>\<open>k + 1\<close> (the notebook prints \<^verbatim>\<open>map_at_k[49]\<close> as MAP@50).
\<close>

definition map_at_k_entry ::
  "npfloat list dict \<Rightarrow> string list \<Rightarrow> int \<Rightarrow> py_exception + npfloat" where
  "map_at_k_entry ap_at_k users k =
     (case comprehension (ap_entry ap_at_k k) users of
        Inl e \<Rightarrow> Inl e
      | Inr vs \<Rightarrow> sum_div vs (length users))"

definition num_k :: int where
  "num_k = 500"

definition map_at_k_cell ::
  "npfloat list dict \<Rightarrow> string list \<Rightarrow> py_exception + npfloat list" where
  "map_at_k_cell ap_at_k users =
     comprehension (map_at_k_entry ap_at_k users) (py_range 0 num_k)"

subsection \<open>\<^verbatim>\<open>calculate_ap\<close> on a store of list objects\<close>

text \<open>
  Python lists are mutable objects and \<^verbatim>\<open>ap.append\<close> changes one in place. To say
  which objects \<^verbatim>\<open>calculate_ap\<close> changes, the function is given a second time over
  a store: the store is the list of all list objects, an object's address is its index,
  and a new object is put at the end.
\<close>

type_synonym store = "npfloat list list"

definition alloc :: "store \<Rightarrow> npfloat list \<Rightarrow> store \<times> nat" where
  "alloc h xs = (h @ [xs], length h)"

text \<open>
  The loop, with \<^verbatim>\<open>ap\<close> the address of the accumulator. It runs over the elements of
  the slice \<^verbatim>\<open>precision[1:]\<close>, an object of its own that nothing else refers to.
\<close>

fun ap_loop_store :: "store \<Rightarrow> nat \<Rightarrow> npfloat list \<Rightarrow> py_exception + store" where
  "ap_loop_store h ap [] = Inr h"
| "ap_loop_store h ap (p # ps) =
     (case py_index (h ! ap) (- 1) of
        Inl e \<Rightarrow> Inl e
      | Inr l \<Rightarrow> ap_loop_store (h[ap := h ! ap @ [np_add l p]]) ap ps)"

text \<open>
  \<^verbatim>\<open>calculate_ap(precision)\<close> with \<^verbatim>\<open>precision\<close> the address of the argument: the
  list display \<^verbatim>\<open>[precision[0]]\<close>, the slice and the final comprehension each make a
  new object; the result is the address of the last one.
\<close>

definition calculate_ap_store :: "store \<Rightarrow> nat \<Rightarrow> py_exception + (store \<times> nat)" where
  "calculate_ap_store h precision_ref =
     (case py_index (h ! precision_ref) 0 of
        Inl e \<Rightarrow> Inl e
      | Inr p0 \<Rightarrow>
         (case alloc h [p0] of
            (h1, ap) \<Rightarrow>
              (case alloc h1 (drop 1 (h1 ! precision_ref)) of
                 (h2, rest) \<Rightarrow>
                   (case ap_loop_store h2 ap (h2 ! rest) of
                      Inl e \<Rightarrow> Inl e
                    | Inr h3 \<Rightarrow> Inr (alloc h3 (ap_divide (h3 ! ap)))))))"

subsection \<open>A small data frame\<close>

text \<open>
  Four ranked rows with the labels 1, 0, 1, 0, used to run the definitions on a
  concrete input.
\<close>

definition example_df :: "row list" where
  "example_df =
     [\<lparr>user = ''rob'', song = ''a'', score = 0.9, label = Some 1\<rparr>,
      \<lparr>user = ''rob'', song = ''b'', score = 0.8, label = Some 0\<rparr>,
      \<lparr>user = ''rob'', song = ''c'', score = 0.7, label = Some 1\<rparr>,
      \<lparr>user = ''rob'', song = ''d'', score = 0.6, label = Some 0\<rparr>]"

text \<open>
  Two rows with the labels 0, 1; two rows that are both not relevant; and two rows of
  two different users.
\<close>

definition short_df :: "row list" where
  "short_df =
     [\<lparr>user = ''rob'', song = ''a'', score = 0.9, label = Some 0\<rparr>,
      \<lparr>user = ''rob'', song = ''b'', score = 0.8, label = Some 1\<rparr>]"

definition unliked_df :: "row list" where
  "unliked_df =
     [\<lparr>user = ''rob'', song = ''a'', score = 0.9, label = Some 0\<rparr>,
      \<lparr>user = ''rob'', song = ''b'', score = 0.8, label = Some 0\<rparr>]"

definition two_user_df :: "row list" where
  "two_user_df =
     [\<lparr>user = ''rob'', song = ''a'', score = 0.9, label = Some 1\<rparr>,
      \<lparr>user = ''fiveofoh'', song = ''b'', score = 0.8, label = Some 0\<rparr>]"

text \<open>
  The average-precision curves, as float64 values, of three users whose first three
  labels are 1, 0, 0 and 0, 0, 1 and 1, 1, 0: the last entries are the float64 values
  printed as 0.611111111111111, 0.1111111111111111 and 0.8888888888888888.
\<close>

definition example_ap_at_k :: "npfloat list dict" where
  "example_ap_at_k =
     [(''rob'', [Fin 1, Fin (3 / 4), Fin (5504399544563939 / 2 ^ 53)]),
      (''fiveofoh'', [Fin 0, Fin 0, Fin (2001599834386887 / 2 ^ 54)]),
      (''Aerion'', [Fin 1, Fin 1, Fin (2001599834386887 / 2 ^ 51)])]"

text \<open>A store of two list objects.\<close>

definition example_store :: store where
  "example_store = [[Fin 1, Fin (1 / 2)], [Fin 0]]"

section \<open>Properties\<close>

subsection \<open>Sequences\<close>

lemma py_index_last: "ap \<noteq> [] \<Longrightarrow> py_index ap (- 1) = Inr (last ap)"
  by (cases ap rule: rev_cases) (simp_all add: py_index_def)

lemma py_index_first: "py_index xs 0 = (case xs of [] \<Rightarrow> Inl IndexError | x # _ \<Rightarrow> Inr x)"
  by (cases xs) (simp_all add: py_index_def)

lemma py_range_nat: "py_range 0 (int n) = map int [0..<n]"
proof (rule nth_equalityI)
  show "length (py_range 0 (int n)) = length (map int [0..<n])"
    by (simp add: py_range_def)
next
  fix i assume "i < length (py_range 0 (int n))"
  then have "i < n" by (simp add: py_range_def)
  then show "py_range 0 (int n) ! i = map int [0..<n] ! i"
    by (simp add: py_range_def)
qed

subsection \<open>The result of \<^verbatim>\<open>calculate_ap\<close>\<close>

lemma ap_loop_result:
  "ap \<noteq> [] \<Longrightarrow>
   ap_loop ap ps =
     Inr (ap @ map (\<lambda>j. foldl np_add (last ap) (take (Suc j) ps)) [0..<length ps])"
proof (induction ps arbitrary: ap)
  case Nil
  then show ?case by simp
next
  case (Cons p ps)
  have step: "ap_loop (ap @ [np_add (last ap) p]) ps =
      Inr ((ap @ [np_add (last ap) p]) @
        map (\<lambda>j. foldl np_add (np_add (last ap) p) (take (Suc j) ps)) [0..<length ps])"
    using Cons.IH [of "ap @ [np_add (last ap) p]"] by simp
  have shift: "map (\<lambda>j. foldl np_add (last ap) (take (Suc j) (p # ps))) [0..<length (p # ps)] =
      np_add (last ap) p #
        map (\<lambda>j. foldl np_add (np_add (last ap) p) (take (Suc j) ps)) [0..<length ps]"
  proof -
    have "[0..<length (p # ps)] = 0 # map Suc [0..<length ps]"
      by (simp add: upt_conv_Cons map_Suc_upt del: upt_Suc)
    then show ?thesis by (simp add: o_def del: upt_Suc)
  qed
  have "ap_loop ap (p # ps) = ap_loop (ap @ [np_add (last ap) p]) ps"
    using Cons.prems by (simp add: py_index_last)
  also have "\<dots> = Inr (ap @ np_add (last ap) p #
        map (\<lambda>j. foldl np_add (np_add (last ap) p) (take (Suc j) ps)) [0..<length ps])"
    using step by simp
  also have "\<dots> = Inr (ap @
        map (\<lambda>j. foldl np_add (last ap) (take (Suc j) (p # ps))) [0..<length (p # ps)])"
    by (simp only: shift)
  finally show ?case .
qed

text \<open>C9: on the empty sequence \<^verbatim>\<open>calculate_ap\<close> fails at \<^verbatim>\<open>precision[0]\<close> with an
  IndexError and returns no curve; it returns a curve exactly on the non-empty
  sequences.\<close>

theorem calculate_ap_empty_fails:
  "calculate_ap [] = Inl IndexError \<and>
   (\<forall>p. (\<exists>out. calculate_ap p = Inr out) = (p \<noteq> []))"
proof
  show "calculate_ap [] = Inl IndexError"
    by (simp add: calculate_ap_def py_index_def)
next
  show "\<forall>p. (\<exists>out. calculate_ap p = Inr out) = (p \<noteq> [])"
  proof
    fix p :: "npfloat list"
    show "(\<exists>out. calculate_ap p = Inr out) = (p \<noteq> [])"
    proof (cases p)
      case Nil
      then show ?thesis by (simp add: calculate_ap_def py_index_def)
    next
      case (Cons p0 ps)
      then show ?thesis
        by (simp add: calculate_ap_def py_index_first ap_loop_result)
    qed
  qed
qed

lemma np_add_zero_left: "np_add (Fin 0) x = x"
  by (cases x) simp_all

lemma np_sum_Cons: "np_sum (x # xs) = foldl np_add x xs"
  by (simp add: np_sum_def np_add_zero_left)



lemma ap_divide_nth:
  "i < length ap \<Longrightarrow> ap_divide ap ! i = np_truediv (ap ! i) (real (Suc i))"
  by (simp add: ap_divide_def py_range_nat add.commute)

lemma length_ap_divide: "length (ap_divide ap) = length ap"
  by (simp add: ap_divide_def py_range_nat)

lemma calculate_ap_closed_form:
  assumes "p \<noteq> []"
  shows "calculate_ap p =
    Inr (map (\<lambda>i. np_truediv (np_sum (take (Suc i) p)) (real (Suc i))) [0..<length p])"
proof -
  obtain p0 ps where p: "p = p0 # ps" using assms by (cases p) auto
  let ?ap = "[p0] @ map (\<lambda>j. foldl np_add (last [p0]) (take (Suc j) ps)) [0..<length ps]"
  have loop: "ap_loop [p0] ps = Inr ?ap"
    by (rule ap_loop_result) simp
  have ap_nth: "?ap ! i = np_sum (take (Suc i) p)" if "i < length p" for i
  proof (cases i)
    case 0
    then show ?thesis by (simp add: p np_sum_Cons)
  next
    case (Suc j)
    with that have "j < length ps" by (simp add: p)
    then show ?thesis by (simp add: Suc p np_sum_Cons del: upt_Suc)
  qed
  have len: "length ?ap = length p" by (simp add: p)
  have "ap_divide ?ap =
      map (\<lambda>i. np_truediv (np_sum (take (Suc i) p)) (real (Suc i))) [0..<length p]"
  proof (rule nth_equalityI)
    show "length (ap_divide ?ap) = length (map (\<lambda>i. np_truediv (np_sum (take (Suc i) p)) (real (Suc i))) [0..<length p])"
      using len by (simp add: length_ap_divide del: upt_Suc)
  next
    fix i assume "i < length (ap_divide ?ap)"
    then have i: "i < length p" using len by (simp add: length_ap_divide del: upt_Suc)
    then have "ap_divide ?ap ! i = np_truediv (?ap ! i) (real (Suc i))"
      using len by (intro ap_divide_nth) simp
    also have "\<dots> = np_truediv (np_sum (take (Suc i) p)) (real (Suc i))"
      using ap_nth [OF i] by simp
    finally show "ap_divide ?ap ! i =
        map (\<lambda>i. np_truediv (np_sum (take (Suc i) p)) (real (Suc i))) [0..<length p] ! i"
      using i by (simp del: upt_Suc)
  qed
  then show ?thesis
    using loop by (simp add: calculate_ap_def p py_index_first del: upt_Suc)
qed



subsection \<open>Precision and recall\<close>

lemma py_slice_to_nonneg: "0 \<le> k \<Longrightarrow> py_slice_to xs k = take (nat k) xs"
  by (simp add: py_slice_to_def)

lemma py_slice_to_beyond: "int (length xs) \<le> k \<Longrightarrow> py_slice_to xs k = xs"
  by (simp add: py_slice_to_def)

lemma series_sum_append: "series_sum (xs @ ys) = series_sum xs + series_sum ys"
  by (simp add: series_sum_def)

lemma series_sum_binary:
  "\<forall>r \<in> set rows. label r = Some 0 \<or> label r = Some 1 \<Longrightarrow>
   series_sum (label_column rows) = int (length (filter (\<lambda>r. label r = Some 1) rows))"
  by (induction rows) (auto simp: series_sum_def label_column_def)

lemma label_column_take: "take n (label_column df) = label_column (take n df)"
  by (simp add: label_column_def take_map)

lemma series_sum_nonneg:
  "\<forall>l \<in> set s. \<forall>v. l = Some v \<longrightarrow> 0 \<le> v \<Longrightarrow> 0 \<le> series_sum s"
  unfolding series_sum_def
  by (rule sum_list_nonneg) (auto split: option.splits)

lemma series_sum_take_mono:
  assumes "\<forall>l \<in> set s. \<forall>v. l = Some v \<longrightarrow> 0 \<le> v" and "m \<le> n"
  shows "series_sum (take m s) \<le> series_sum (take n s)"
proof -
  have "take n s = take m s @ take (n - m) (drop m s)"
    using assms(2) by (metis le_add_diff_inverse take_add)
  moreover have "0 \<le> series_sum (take (n - m) (drop m s))"
    using assms(1) by (intro series_sum_nonneg) (meson in_set_dropD in_set_takeD)
  ultimately show ?thesis by (simp add: series_sum_append)
qed

lemma series_sum_object: "\<not> numeric_column s \<Longrightarrow> series_sum s = 0"
  by (induction s) (auto simp: numeric_column_def series_sum_def)

lemma numeric_column_positive: "0 < series_sum s \<Longrightarrow> numeric_column s"
  using series_sum_object [of s] by auto

lemma numeric_column_binary:
  "rows \<noteq> [] \<Longrightarrow> \<forall>r \<in> set rows. label r = Some 0 \<or> label r = Some 1 \<Longrightarrow>
   numeric_column (label_column rows)"
  by (cases rows) (auto simp: numeric_column_def label_column_def)

lemma precision_numeric:
  "numeric_column (label_column df) \<Longrightarrow> precision df k = Inr (np_precision df k)"
  by (simp add: precision_def series_truediv_def)

lemma recall_numeric:
  "numeric_column (label_column df) \<Longrightarrow> recall df k = Inr (np_recall df k)"
  by (simp add: recall_def series_truediv_def)

lemma recall_object:
  assumes "\<not> numeric_column (label_column df)"
  shows "recall df k = Inl ZeroDivisionError"
  using assms series_sum_object [OF assms]
  by (simp add: recall_def series_truediv_def)

text \<open>C5: when every label of the ranked list is 0 or 1 and \<open>1 \<le> k \<le> length\<close>,
  precision at \<open>k\<close> is the number of rows with label 1 among the first \<open>k\<close> rows,
  divided by \<open>k\<close>, and that value lies between 0 and 1.\<close>

theorem precision_is_relevant_fraction:
  assumes "\<forall>r \<in> set df. label r = Some 0 \<or> label r = Some 1"
    and "1 \<le> k" and "k \<le> int (length df)"
  shows "precision df k =
           Inr (Fin (real (length (filter (\<lambda>r. label r = Some 1) (take (nat k) df))) /
                     real_of_int k)) \<and>
         0 \<le> real (length (filter (\<lambda>r. label r = Some 1) (take (nat k) df))) / real_of_int k \<and>
         real (length (filter (\<lambda>r. label r = Some 1) (take (nat k) df))) / real_of_int k \<le> 1"
proof -
  let ?hits = "length (filter (\<lambda>r. label r = Some 1) (take (nat k) df))"
  have bin: "\<forall>r \<in> set (take (nat k) df). label r = Some 0 \<or> label r = Some 1"
    using assms(1) by (meson in_set_takeD)
  have sum: "series_sum (py_slice_to (label_column df) k) = int ?hits"
    using assms(2) series_sum_binary [OF bin]
    by (simp add: py_slice_to_nonneg label_column_take)
  have "df \<noteq> []" using assms(2,3) by auto
  then have num: "numeric_column (label_column df)"
    using assms(1) by (rule numeric_column_binary)
  have val: "precision df k = Inr (Fin (real ?hits / real_of_int k))"
    using assms(2) sum by (simp add: precision_numeric [OF num])
  have "?hits \<le> length (take (nat k) df)" by (rule length_filter_le)
  also have "\<dots> = nat k" using assms(2,3) by simp
  finally have "real ?hits \<le> real_of_int k" using assms(2) by linarith
  then have "real ?hits / real_of_int k \<le> 1" using assms(2) by (simp add: divide_le_eq)
  moreover have "0 \<le> real ?hits / real_of_int k" using assms(2) by simp
  ultimately show ?thesis using val by simp
qed

theorem precision_is_relevant_fraction_witness:
  "map label example_df = [Some 1, Some 0, Some 1, Some 0] \<and>
   (1::int) \<le> 3 \<and> 3 \<le> int (length example_df) \<and>
   precision example_df 3 = Inr (Fin (2 / 3))"
  using precision_is_relevant_fraction [of example_df 3]
  by (simp add: example_df_def)

text \<open>C6: for a ranked list whose relevance labels are not negative (0 or 1 in the
  notebook's query) and whose label total is positive, recall at \<open>k\<close> is a finite
  number that does not decrease when \<open>k\<close> grows, for all \<open>1 \<le> k1 \<le> k2\<close>.\<close>

theorem recall_nondecreasing:
  assumes "\<forall>r \<in> set df. \<forall>v. label r = Some v \<longrightarrow> 0 \<le> v"
    and "0 < series_sum (label_column df)"
    and "1 \<le> k1" and "k1 \<le> k2"
  shows "\<exists>r1 r2. recall df k1 = Inr (Fin r1) \<and> recall df k2 = Inr (Fin r2) \<and> r1 \<le> r2"
proof -
  let ?tot = "series_sum (label_column df)"
  let ?pre = "\<lambda>k. series_sum (py_slice_to (label_column df) k)"
  have nn: "\<forall>l \<in> set (label_column df). \<forall>v. l = Some v \<longrightarrow> 0 \<le> v"
    using assms(1) by (auto simp: label_column_def)
  have "?pre k1 \<le> ?pre k2"
    using assms(3,4) series_sum_take_mono [OF nn, of "nat k1" "nat k2"]
    by (simp add: py_slice_to_nonneg)
  then have "real_of_int (?pre k1) / real_of_int ?tot \<le> real_of_int (?pre k2) / real_of_int ?tot"
    using assms(2) by (simp add: divide_right_mono)
  moreover have "recall df k = Inr (Fin (real_of_int (?pre k) / real_of_int ?tot))" for k
    using assms(2) by (simp add: recall_numeric [OF numeric_column_positive [OF assms(2)]])
  ultimately show ?thesis by blast
qed

theorem recall_nondecreasing_witness:
  "map label example_df = [Some 1, Some 0, Some 1, Some 0] \<and>
   0 < series_sum (label_column example_df) \<and> (1::int) \<le> 2 \<and> (2::int) \<le> 3 \<and>
   (\<exists>r1 r2. recall example_df 2 = Inr (Fin r1) \<and> recall example_df 3 = Inr (Fin r2) \<and>
      r1 \<le> r2)"
  using recall_nondecreasing [of example_df 2 3]
  by (simp add: example_df_def series_sum_def label_column_def)

text \<open>C8: for a ranked list with 0/1 labels and a positive label total (the list
  holds all the relevant items, since the total is taken over the list itself), recall
  at \<open>k\<close> is exactly 1 as soon as every relevant row has a rank of at most \<open>k\<close>, that is,
  from the rank of the last relevant row on. The row at index \<open>i\<close> has rank \<open>i + 1\<close>.\<close>

theorem recall_reaches_one:
  assumes "\<forall>r \<in> set df. label r = Some 0 \<or> label r = Some 1"
    and "0 < series_sum (label_column df)"
    and "\<forall>i < length df. label (df ! i) = Some 1 \<longrightarrow> int i < k"
  shows "recall df k = Inr (Fin 1)"
proof -
  have k0: "0 \<le> k"
  proof (rule ccontr)
    assume "\<not> 0 \<le> k"
    then have "\<forall>i < length df. label (df ! i) \<noteq> Some 1" using assms(3) by fastforce
    then have "filter (\<lambda>r. label r = Some 1) df = []"
      by (auto simp: filter_empty_conv in_set_conv_nth)
    then show False using assms(2) series_sum_binary [OF assms(1)] by simp
  qed
  have split: "df = take (nat k) df @ drop (nat k) df" by simp
  have "filter (\<lambda>r. label r = Some 1) (drop (nat k) df) = []"
  proof -
    have "label r \<noteq> Some 1" if "r \<in> set (drop (nat k) df)" for r
    proof -
      from that obtain j where j: "j < length (drop (nat k) df)" "r = drop (nat k) df ! j"
        by (auto simp: in_set_conv_nth)
      then have r: "r = df ! (nat k + j)" and lt: "nat k + j < length df" by simp_all
      have "\<not> int (nat k + j) < k" using k0 by simp
      then show ?thesis using assms(3) lt r by blast
    qed
    then show ?thesis by (auto simp: filter_empty_conv)
  qed
  moreover have "\<forall>r \<in> set (drop (nat k) df). label r = Some 0 \<or> label r = Some 1"
    using assms(1) by (meson in_set_dropD)
  ultimately have "series_sum (label_column (drop (nat k) df)) = 0"
    using series_sum_binary by fastforce
  moreover have "series_sum (label_column df) =
      series_sum (label_column (take (nat k) df)) + series_sum (label_column (drop (nat k) df))"
    by (metis split label_column_def map_append series_sum_append)
  ultimately have "series_sum (py_slice_to (label_column df) k) = series_sum (label_column df)"
    using k0 by (simp add: py_slice_to_nonneg label_column_take)
  then show ?thesis
    using assms(2) by (simp add: recall_numeric [OF numeric_column_positive [OF assms(2)]])
qed

theorem recall_reaches_one_witness:
  "map label example_df = [Some 1, Some 0, Some 1, Some 0] \<and>
   0 < series_sum (label_column example_df) \<and>
   recall example_df 3 = Inr (Fin 1)"
proof -
  have h: "\<forall>i < length example_df. label (example_df ! i) = Some 1 \<longrightarrow> int i < 3"
    by (simp add: example_df_def less_Suc_eq numeral_eq_Suc all_conj_distrib nth_Cons')
  show ?thesis
    using recall_reaches_one [of example_df 3] h
    by (simp add: example_df_def series_sum_def label_column_def)
qed

subsection \<open>The cell that fills the two dictionaries\<close>

lemma dict_get_Some: "map_of d u = Some v \<Longrightarrow> dict_get d u = Inr v"
  by (simp add: dict_get_def)

lemma k_loop_result:
  "\<forall>k \<in> set ks. precision df k = Inr (pf k) \<and> recall df k = Inr (rf k) \<Longrightarrow>
   map_of pm u = Some ps \<Longrightarrow> map_of rm u = Some rs \<Longrightarrow>
   \<exists>pm' rm'. k_loop df u ks (pm, rm) = Inr (pm', rm') \<and>
      map_of pm' = (map_of pm)(u \<mapsto> ps @ map pf ks) \<and>
      map_of rm' = (map_of rm)(u \<mapsto> rs @ map rf ks)"
proof (induction ks arbitrary: pm rm ps rs)
  case Nil
  then show ?case by (auto simp: fun_upd_idem)
next
  case (Cons k ks)
  let ?pm = "AList.update u (ps @ [pf k]) pm"
  let ?rm = "AList.update u (rs @ [rf k]) rm"
  have vals: "precision df k = Inr (pf k)" "recall df k = Inr (rf k)"
    and rest: "\<forall>k \<in> set ks. precision df k = Inr (pf k) \<and> recall df k = Inr (rf k)"
    using Cons.prems(1) by simp_all
  have "map_of ?pm u = Some (ps @ [pf k])" "map_of ?rm u = Some (rs @ [rf k])"
    by (simp_all add: update_conv')
  from Cons.IH [OF rest this] obtain pm' rm' where
    run: "k_loop df u ks (?pm, ?rm) = Inr (pm', rm')" and
    pm': "map_of pm' = (map_of ?pm)(u \<mapsto> (ps @ [pf k]) @ map pf ks)" and
    rm': "map_of rm' = (map_of ?rm)(u \<mapsto> (rs @ [rf k]) @ map rf ks)"
    by blast
  have "k_loop df u (k # ks) (pm, rm) = Inr (pm', rm')"
    using Cons.prems(2,3) run vals by (simp add: dict_get_Some)
  moreover have "map_of pm' = (map_of pm)(u \<mapsto> ps @ map pf (k # ks))"
    using pm' by (simp add: update_conv')
  moreover have "map_of rm' = (map_of rm)(u \<mapsto> rs @ map rf (k # ks))"
    using rm' by (simp add: update_conv')
  ultimately show ?case by blast
qed

lemma user_loop_result:
  assumes "numeric_column (label_column df)"
  shows "\<exists>pm' rm'. user_loop df us (pm, rm) = Inr (pm', rm') \<and>
     (\<forall>u. map_of pm' u =
        (if u \<in> set us then Some (map (np_precision df) (py_range 1 1000)) else map_of pm u)) \<and>
     (\<forall>u. map_of rm' u =
        (if u \<in> set us then Some (map (np_recall df) (py_range 1 1000)) else map_of rm u))"
proof (induction us arbitrary: pm rm)
  case Nil
  then show ?case by simp
next
  case (Cons usr us)
  let ?pm = "AList.update usr [] pm"
  let ?rm = "AList.update usr [] rm"
  have vals: "\<forall>k \<in> set (py_range 1 1000).
      precision df k = Inr (np_precision df k) \<and> recall df k = Inr (np_recall df k)"
    using assms by (simp add: precision_numeric recall_numeric)
  have "map_of ?pm usr = Some []" "map_of ?rm usr = Some []"
    by (simp_all add: update_conv')
  from k_loop_result [OF vals this] obtain pm1 rm1 where
    inner: "k_loop df usr (py_range 1 1000) (?pm, ?rm) = Inr (pm1, rm1)" and
    pm1: "map_of pm1 = (map_of ?pm)(usr \<mapsto> [] @ map (np_precision df) (py_range 1 1000))" and
    rm1: "map_of rm1 = (map_of ?rm)(usr \<mapsto> [] @ map (np_recall df) (py_range 1 1000))"
    by blast
  from Cons.IH [of pm1 rm1] obtain pm' rm' where
    rest: "user_loop df us (pm1, rm1) = Inr (pm', rm')" and
    pm': "\<forall>u. map_of pm' u =
        (if u \<in> set us then Some (map (np_precision df) (py_range 1 1000)) else map_of pm1 u)" and
    rm': "\<forall>u. map_of rm' u =
        (if u \<in> set us then Some (map (np_recall df) (py_range 1 1000)) else map_of rm1 u)"
    by blast
  have "user_loop df (usr # us) (pm, rm) = Inr (pm', rm')"
    using inner rest by simp
  moreover have "\<forall>u. map_of pm' u =
      (if u \<in> set (usr # us) then Some (map (np_precision df) (py_range 1 1000)) else map_of pm u)"
    using pm' pm1 by (simp add: update_conv')
  moreover have "\<forall>u. map_of rm' u =
      (if u \<in> set (usr # us) then Some (map (np_recall df) (py_range 1 1000)) else map_of rm u)"
    using rm' rm1 by (simp add: update_conv')
  ultimately show ?case by blast
qed

lemma precision_recall_cell_result:
  assumes "numeric_column (label_column df)"
  shows "\<exists>pm rm. precision_recall_cell users df = Inr (pm, rm) \<and>
     (\<forall>u \<in> set users. map_of pm u = Some (map (np_precision df) (py_range 1 1000)) \<and>
                       map_of rm u = Some (map (np_recall df) (py_range 1 1000)))"
  using user_loop_result [OF assms, of users "[]" "[]"]
  unfolding precision_recall_cell_def by fastforce

text \<open>
  On a column without any number the first pass of the loop already raises: the recall
  at \<open>k = 1\<close> divides the Python integer 0 by the Python integer 0.
\<close>

lemma precision_recall_cell_object:
  assumes "\<not> numeric_column (label_column df)" and "users \<noteq> []"
  shows "precision_recall_cell users df = Inl ZeroDivisionError"
proof -
  obtain usr us where users: "users = usr # us" using assms(2) by (cases users) auto
  have range: "py_range 1 1000 = 1 # py_range 2 1000"
    by (simp add: py_range_def upto_rec1)
  have "precision df 1 = Inr (Fin 0)"
    using assms(1) series_sum_object [of "py_slice_to (label_column df) 1"]
    by (auto simp: precision_def series_truediv_def numeric_column_def py_slice_to_def
        dest: in_set_takeD)
  moreover have "recall df 1 = Inl ZeroDivisionError"
    using assms(1) by (rule recall_object)
  ultimately have "k_loop df usr (py_range 1 1000) st = Inl ZeroDivisionError" for st
    unfolding range by (cases st) simp
  then show ?thesis
    by (simp add: precision_recall_cell_def users)
qed

lemma py_range_nth:
  "a \<le> k \<Longrightarrow> k < b \<Longrightarrow> py_range a b ! nat (k - a) = k"
  by (simp add: py_range_def)

lemma length_py_range: "length (py_range a b) = nat (b - a)"
  by (simp add: py_range_def)

lemma py_range_1_4: "py_range 1 4 = [1, 2, 3]"
  by (simp add: py_range_def upto_rec1)

lemma py_range_1_3: "py_range 1 3 = [1, 2]"
  by (simp add: py_range_def upto_rec1)

lemma py_slice_to_take: "\<exists>m. py_slice_to xs k = take m xs"
  unfolding py_slice_to_def by auto

lemma series_sum_slice_bounds:
  assumes "\<forall>l \<in> set s. \<forall>v. l = Some v \<longrightarrow> 0 \<le> v"
  shows "0 \<le> series_sum (py_slice_to s k) \<and> series_sum (py_slice_to s k) \<le> series_sum s"
proof -
  obtain m where m: "py_slice_to s k = take m s" using py_slice_to_take by blast
  have "0 \<le> series_sum (take m s)"
    using assms by (intro series_sum_nonneg) (meson in_set_takeD)
  moreover have "0 \<le> series_sum (drop m s)"
    using assms by (intro series_sum_nonneg) (meson in_set_dropD)
  moreover have "series_sum s = series_sum (take m s) + series_sum (drop m s)"
    by (metis append_take_drop_id series_sum_append)
  ultimately show ?thesis using m by simp
qed

lemma np_truediv_zero_not_Fin: "np_truediv x 0 \<noteq> Fin v"
  by (cases x) simp_all

text \<open>C2, as stated, fails: on a list of two rows the cutoff \<open>k = 3\<close> raises nothing.
  The slice stops at the end of the list and the loop appends \<open>1/3\<close> and \<open>1\<close>, the
  label total over 3 and over itself.\<close>

theorem invalid_k_truncates_counterexample:
  "length short_df = 2 \<and>
   precision short_df 3 = Inr (Fin (1 / 3)) \<and> recall short_df 3 = Inr (Fin 1) \<and>
   k_loop short_df ''rob'' (py_range 1 4) ([(''rob'', [])], [(''rob'', [])]) =
     Inr ([(''rob'', [Fin 0, Fin (1 / 2), Fin (1 / 3)])], [(''rob'', [Fin 0, Fin 1, Fin 1])])"
  by (simp add: py_range_1_4 short_df_def precision_def recall_def series_truediv_def
      numeric_column_def py_slice_to_def label_column_def series_sum_def dict_get_def)

text \<open>C2, amended: for every ranked list whose label column is numeric (it holds at
  least one number) and every \<open>k\<close> greater than its length, precision at \<open>k\<close> and recall
  at \<open>k\<close> raise no error; the slice \<^verbatim>\<open>[:k]\<close> stops at the end of the list, so
  precision is the label total of the whole list over \<open>k\<close> and recall is the label total
  over itself. The cell, which runs \<open>k\<close> from 1 to 999, completes for every such list
  and stores these values at index \<open>k - 1\<close> of each user's curves.\<close>

theorem precision_recall_beyond_length:
  assumes "int (length df) < k" and "numeric_column (label_column df)"
  shows "precision df k =
           Inr (np_truediv (Fin (real_of_int (series_sum (label_column df)))) (real_of_int k)) \<and>
         recall df k =
           Inr (np_truediv (Fin (real_of_int (series_sum (label_column df))))
                  (real_of_int (series_sum (label_column df)))) \<and>
         (k \<le> 999 \<and> u \<in> set users \<longrightarrow>
            (\<exists>pm rm ps rs. precision_recall_cell users df = Inr (pm, rm) \<and>
               map_of pm u = Some ps \<and> map_of rm u = Some rs \<and>
               precision df k = Inr (ps ! nat (k - 1)) \<and>
               recall df k = Inr (rs ! nat (k - 1))))"
proof -
  have len: "length (label_column df) = length df" by (simp add: label_column_def)
  have slice: "py_slice_to (label_column df) k = label_column df"
    using assms(1) len by (intro py_slice_to_beyond) simp
  have k1: "1 \<le> k" using assms(1) by linarith
  have cell: "\<exists>pm rm ps rs. precision_recall_cell users df = Inr (pm, rm) \<and>
               map_of pm u = Some ps \<and> map_of rm u = Some rs \<and>
               precision df k = Inr (ps ! nat (k - 1)) \<and>
               recall df k = Inr (rs ! nat (k - 1))"
    if "k \<le> 999" "u \<in> set users"
  proof -
    from precision_recall_cell_result [OF assms(2), of users] that(2) obtain pm rm where
      run: "precision_recall_cell users df = Inr (pm, rm)" and
      pm: "map_of pm u = Some (map (np_precision df) (py_range 1 1000))" and
      rm: "map_of rm u = Some (map (np_recall df) (py_range 1 1000))"
      by blast
    have lt: "nat (k - 1) < length (py_range 1 1000)"
      using k1 that(1) by (simp add: length_py_range)
    have nth: "py_range 1 1000 ! nat (k - 1) = k"
      using k1 that(1) by (intro py_range_nth) simp_all
    have "map (np_precision df) (py_range 1 1000) ! nat (k - 1) =
        np_precision df (py_range 1 1000 ! nat (k - 1))"
      using lt by (rule nth_map)
    then have p: "precision df k = Inr (map (np_precision df) (py_range 1 1000) ! nat (k - 1))"
      by (simp only: nth precision_numeric [OF assms(2)])
    have "map (np_recall df) (py_range 1 1000) ! nat (k - 1) =
        np_recall df (py_range 1 1000 ! nat (k - 1))"
      using lt by (rule nth_map)
    then have r: "recall df k = Inr (map (np_recall df) (py_range 1 1000) ! nat (k - 1))"
      by (simp only: nth recall_numeric [OF assms(2)])
    show ?thesis using run pm rm p r by blast
  qed
  have "precision df k =
      Inr (np_truediv (Fin (real_of_int (series_sum (label_column df)))) (real_of_int k))"
    using precision_numeric [OF assms(2), of k] by (simp only: slice)
  moreover have "recall df k =
      Inr (np_truediv (Fin (real_of_int (series_sum (label_column df))))
             (real_of_int (series_sum (label_column df))))"
    using recall_numeric [OF assms(2), of k] by (simp only: slice)
  ultimately show ?thesis using cell by blast
qed

theorem precision_recall_beyond_length_witness:
  "int (length short_df) < 3 \<and> numeric_column (label_column short_df) \<and>
   precision short_df 3 = Inr (Fin (1 / 3)) \<and> recall short_df 3 = Inr (Fin 1) \<and>
   (\<exists>pm rm ps rs. precision_recall_cell [''rob''] short_df = Inr (pm, rm) \<and>
      map_of pm ''rob'' = Some ps \<and> map_of rm ''rob'' = Some rs \<and>
      ps ! 2 = Fin (1 / 3) \<and> rs ! 2 = Fin 1)"
proof -
  have len: "int (length short_df) < 3" by (simp add: short_df_def)
  have num: "numeric_column (label_column short_df)"
    by (simp add: short_df_def numeric_column_def label_column_def)
  have two: "nat (3 - 1) = 2" by simp
  have vals: "precision short_df 3 = Inr (Fin (1 / 3))" "recall short_df 3 = Inr (Fin 1)"
    using num by (simp_all add: precision_numeric recall_numeric)
      (simp_all add: short_df_def py_slice_to_def label_column_def series_sum_def)
  have side: "(3::int) \<le> 999 \<and> ''rob'' \<in> set [''rob'']" by simp
  have "\<exists>pm rm ps rs. precision_recall_cell [''rob''] short_df = Inr (pm, rm) \<and>
      map_of pm ''rob'' = Some ps \<and> map_of rm ''rob'' = Some rs \<and>
      precision short_df 3 = Inr (ps ! nat (3 - 1)) \<and>
      recall short_df 3 = Inr (rs ! nat (3 - 1))"
    using precision_recall_beyond_length [OF len num, of "''rob''" "[''rob'']"] side by blast
  then have "\<exists>pm rm ps rs. precision_recall_cell [''rob''] short_df = Inr (pm, rm) \<and>
      map_of pm ''rob'' = Some ps \<and> map_of rm ''rob'' = Some rs \<and>
      Fin (1 / 3) = ps ! 2 \<and> Fin 1 = rs ! 2"
    unfolding two vals sum.inject .
  then show ?thesis using len num vals by metis
qed

text \<open>C4, as stated, fails: with two rows that are both not relevant the label total
  is 0, the division is performed, and the loop appends \<^verbatim>\<open>nan\<close> to the recall curve
  without raising.\<close>

theorem zero_relevant_yields_nan_counterexample:
  "series_sum (label_column unliked_df) = 0 \<and>
   recall unliked_df 1 = Inr NaN \<and>
   k_loop unliked_df ''rob'' (py_range 1 3) ([(''rob'', [])], [(''rob'', [])]) =
     Inr ([(''rob'', [Fin 0, Fin 0])], [(''rob'', [NaN, NaN])])"
  by (simp add: py_range_1_3 unliked_df_def precision_def recall_def series_truediv_def
      numeric_column_def py_slice_to_def label_column_def series_sum_def dict_get_def)

text \<open>C4, amended: when the label total of the list is zero and the label column is
  numeric (it holds at least one number), recall at \<open>k\<close> is computed by the unguarded
  division and nothing is raised: the result is never a finite number (so it differs
  from a recall of 0.0), with 0/1 labels it is \<^verbatim>\<open>nan\<close> for every \<open>k\<close>, and the cell
  completes and stores 999 such values in each user's recall curve. When the label column
  holds no number at all (every label missing, or no row), the same division is a
  division of Python integers and raises ZeroDivisionError, in the first pass of the
  loop.\<close>

theorem recall_zero_total:
  assumes "series_sum (label_column df) = 0"
  shows "(numeric_column (label_column df) \<longrightarrow>
            (\<exists>x. recall df k = Inr x \<and> (\<forall>v. x \<noteq> Fin v)) \<and>
            ((\<forall>r \<in> set df. label r = Some 0 \<or> label r = Some 1) \<longrightarrow> recall df k = Inr NaN) \<and>
            (u \<in> set users \<longrightarrow>
               (\<exists>pm rm rs. precision_recall_cell users df = Inr (pm, rm) \<and>
                  map_of rm u = Some rs \<and> length rs = 999 \<and>
                  (\<forall>x \<in> set rs. \<forall>v. x \<noteq> Fin v)))) \<and>
         (\<not> numeric_column (label_column df) \<longrightarrow>
            recall df k = Inl ZeroDivisionError \<and>
            (users \<noteq> [] \<longrightarrow> precision_recall_cell users df = Inl ZeroDivisionError))"
proof (cases "numeric_column (label_column df)")
  case False
  then show ?thesis
    using recall_object [of df k] precision_recall_cell_object [of df users] by blast
next
  case num: True
  have notfin: "np_recall df j \<noteq> Fin v" for j v
    using assms by (simp add: np_truediv_zero_not_Fin del: np_truediv.simps)
  have val: "recall df k = Inr (np_recall df k)"
    using num by (rule recall_numeric)
  have nan: "recall df k = Inr NaN" if bin: "\<forall>r \<in> set df. label r = Some 0 \<or> label r = Some 1"
  proof -
    have "\<forall>l \<in> set (label_column df). \<forall>v. l = Some v \<longrightarrow> 0 \<le> v"
      using bin by (auto simp: label_column_def)
    from series_sum_slice_bounds [OF this, of k] assms
    have "series_sum (py_slice_to (label_column df) k) = 0" by simp
    then show ?thesis using assms val by simp
  qed
  have cell: "\<exists>pm rm rs. precision_recall_cell users df = Inr (pm, rm) \<and>
               map_of rm u = Some rs \<and> length rs = 999 \<and>
               (\<forall>x \<in> set rs. \<forall>v. x \<noteq> Fin v)" if "u \<in> set users"
  proof -
    from precision_recall_cell_result [OF num, of users] that obtain pm rm where
      run: "precision_recall_cell users df = Inr (pm, rm)" and
      rm: "map_of rm u = Some (map (np_recall df) (py_range 1 1000))"
      by blast
    have "length (map (np_recall df) (py_range 1 1000)) = 999"
      by (simp add: length_py_range)
    moreover have "\<forall>x \<in> set (map (np_recall df) (py_range 1 1000)). \<forall>v. x \<noteq> Fin v"
    proof (intro ballI allI)
      fix x v assume "x \<in> set (map (np_recall df) (py_range 1 1000))"
      then obtain j where "x = np_recall df j" by (auto simp del: np_truediv.simps)
      then show "x \<noteq> Fin v" using notfin [of j v] by (simp only: not_False_eq_True)
    qed
    ultimately show ?thesis using run rm by blast
  qed
  show ?thesis using num notfin val nan cell by blast
qed

theorem recall_zero_total_witness:
  "series_sum (label_column unliked_df) = 0 \<and>
   numeric_column (label_column unliked_df) \<and>
   map label unliked_df = [Some 0, Some 0] \<and>
   recall unliked_df 2 = Inr NaN"
proof -
  have tot: "series_sum (label_column unliked_df) = 0"
    by (simp add: unliked_df_def label_column_def series_sum_def)
  have num: "numeric_column (label_column unliked_df)"
    by (simp add: unliked_df_def numeric_column_def label_column_def)
  have bin: "\<forall>r \<in> set unliked_df. label r = Some 0 \<or> label r = Some 1"
    by (simp add: unliked_df_def)
  have "map label unliked_df = [Some 0, Some 0]"
    by (simp add: unliked_df_def)
  then show ?thesis
    using recall_zero_total [OF tot, of 2] tot num bin by blast
qed

text \<open>C3: the cell does not compute a user's curves from that user's rows. The loop
  body reads the whole data frame whatever the user, so every user gets the same two
  curves. With one relevant row of \<^verbatim>\<open>rob\<close> ranked before one non-relevant row of
  \<^verbatim>\<open>fiveofoh\<close>, both users get precision 1 and recall 1 at \<open>k = 1\<close>, while the rows
  of \<^verbatim>\<open>fiveofoh\<close> alone give precision 0 and an undefined recall.\<close>

theorem precision_recall_cell_ignores_user:
  "\<exists>pm rm ps rs. precision_recall_cell [''rob'', ''fiveofoh''] two_user_df = Inr (pm, rm) \<and>
     map_of pm ''rob'' = map_of pm ''fiveofoh'' \<and>
     map_of rm ''rob'' = map_of rm ''fiveofoh'' \<and>
     map_of pm ''fiveofoh'' = Some ps \<and> ps ! 0 = Fin 1 \<and>
     map_of rm ''fiveofoh'' = Some rs \<and> rs ! 0 = Fin 1 \<and>
     precision (filter (\<lambda>r. user r = ''fiveofoh'') two_user_df) 1 = Inr (Fin 0) \<and>
     recall (filter (\<lambda>r. user r = ''fiveofoh'') two_user_df) 1 = Inr NaN \<and>
     precision (filter (\<lambda>r. user r = ''rob'') two_user_df) 1 = Inr (Fin 1) \<and>
     recall (filter (\<lambda>r. user r = ''rob'') two_user_df) 1 = Inr (Fin 1)"
proof -
  have num: "numeric_column (label_column two_user_df)"
    by (simp add: two_user_df_def numeric_column_def label_column_def)
  from precision_recall_cell_result [OF num, of "[''rob'', ''fiveofoh'']"]
  obtain pm rm where
    run: "precision_recall_cell [''rob'', ''fiveofoh''] two_user_df = Inr (pm, rm)" and
    pr: "map_of pm ''rob'' = Some (map (np_precision two_user_df) (py_range 1 1000))" and
    pf: "map_of pm ''fiveofoh'' = Some (map (np_precision two_user_df) (py_range 1 1000))" and
    rr: "map_of rm ''rob'' = Some (map (np_recall two_user_df) (py_range 1 1000))" and
    rf: "map_of rm ''fiveofoh'' = Some (map (np_recall two_user_df) (py_range 1 1000))"
    by auto
  have first: "py_range 1 1000 ! 0 = 1" "0 < length (py_range 1 1000)"
    using py_range_nth [of 1 1 1000] by (simp_all add: length_py_range)
  have p0: "map (np_precision two_user_df) (py_range 1 1000) ! 0 = Fin 1"
    using first
    by (simp add: two_user_df_def py_slice_to_def label_column_def series_sum_def)
  have r0: "map (np_recall two_user_df) (py_range 1 1000) ! 0 = Fin 1"
    using first
    by (simp add: two_user_df_def py_slice_to_def label_column_def series_sum_def)
  have own:
    "precision (filter (\<lambda>r. user r = ''fiveofoh'') two_user_df) 1 = Inr (Fin 0)"
    "recall (filter (\<lambda>r. user r = ''fiveofoh'') two_user_df) 1 = Inr NaN"
    "precision (filter (\<lambda>r. user r = ''rob'') two_user_df) 1 = Inr (Fin 1)"
    "recall (filter (\<lambda>r. user r = ''rob'') two_user_df) 1 = Inr (Fin 1)"
    by (simp_all add: two_user_df_def precision_def recall_def series_truediv_def
        numeric_column_def py_slice_to_def label_column_def series_sum_def)
  show ?thesis
    using run pr pf rr rf p0 r0 own by simp
qed

subsection \<open>Mean average precision\<close>

text \<open>The rules that evaluate a rounding on a concrete number.\<close>

lemmas f64_eval = f64_round_def f64_spacing_def binary_exponent_def round_half_even_def
  two_power_def bit_length.simps

text \<open>The rounded value is a multiple of the spacing at most half a spacing away.\<close>

lemma round_half_even_nearest: "\<bar>real_of_int (round_half_even y) - y\<bar> \<le> 1 / 2"
  unfolding round_half_even_def by (auto simp: abs_le_iff)

lemma two_power_pos: "0 < two_power e"
  by (simp add: two_power_def)

lemma f64_round_nearest:
  assumes "f64_round x = Fin r"
  shows "\<bar>r - x\<bar> \<le> f64_spacing x / 2"
proof (cases "x = 0")
  case True
  then show ?thesis using assms two_power_pos [of "max (binary_exponent 0) (- 1022) - 52"]
    by (simp add: f64_round_def f64_spacing_def)
next
  case False
  let ?q = "f64_spacing x"
  let ?n = "real_of_int (round_half_even (x / ?q))"
  have q: "0 < ?q" by (simp add: f64_spacing_def two_power_pos)
  have r: "r = ?n * ?q"
    using assms False by (auto simp: f64_round_def split: if_splits)
  have "\<bar>?n - x / ?q\<bar> \<le> 1 / 2" by (rule round_half_even_nearest)
  then have "\<bar>?n - x / ?q\<bar> * ?q \<le> 1 / 2 * ?q"
    using q by (intro mult_right_mono) simp_all
  moreover have "\<bar>?n * ?q - x\<bar> = \<bar>?n - x / ?q\<bar> * ?q"
  proof -
    have "?n * ?q - x = (?n - x / ?q) * ?q" using q by (simp add: left_diff_distrib)
    then have "\<bar>?n * ?q - x\<bar> = \<bar>?n - x / ?q\<bar> * \<bar>?q\<bar>" by (simp only: abs_mult)
    then show ?thesis using q by (simp only: abs_of_pos)
  qed
  ultimately show ?thesis using r by simp
qed

lemma f64_round_examples:
  "f64_round 1 = Fin 1"
  "f64_round (1 / 3) = Fin (6004799503160661 / 2 ^ 54)"
  "f64_round (1 / 10) = Fin (3602879701896397 / 2 ^ 55)"
  "f64_round (- 3 / 2) = Fin (- 3 / 2)"
  "f64_round (2 ^ 53 + 1) = Fin (2 ^ 53)"
  "f64_round (2 ^ 53 + 3) = Fin (2 ^ 53 + 4)"
  by (simp_all add: f64_eval)

lemma np_add_commute: "np_add x y = np_add y x"
  by (cases x; cases y) simp_all

lemma np_add_assoc: "np_add (np_add x y) z = np_add x (np_add y z)"
  by (cases x; cases y; cases z) simp_all

lemma np_sum_mset:
  assumes "mset xs = mset ys"
  shows "np_sum xs = np_sum ys"
proof -
  have "fold (\<lambda>x acc. np_add acc x) xs = fold (\<lambda>x acc. np_add acc x) ys"
  proof (rule fold_multiset_equiv [OF _ assms])
    fix x y
    show "(\<lambda>acc. np_add acc x) \<circ> (\<lambda>acc. np_add acc y) =
          (\<lambda>acc. np_add acc y) \<circ> (\<lambda>acc. np_add acc x)"
      by (rule ext) (simp add: np_add_assoc np_add_commute [of x y])
  qed
  then show ?thesis by (simp add: np_sum_def foldl_conv_fold)
qed

lemma f64_add_commute: "f64_add x y = f64_add y x"
  by (cases x; cases y) (simp_all add: add.commute)

lemma f64_add_zero_left: "is_f64 x \<Longrightarrow> f64_add (Fin 0) x = x"
  by (cases x) (simp_all add: is_f64_def)

lemma f64_sum_two_orders:
  assumes "mset ys = mset xs" and "length xs \<le> 2" and "\<forall>x \<in> set xs. is_f64 x"
  shows "f64_sum ys = f64_sum xs"
proof -
  have len: "length ys = length xs" using assms(1) by (rule mset_eq_length)
  consider "xs = []" | a where "xs = [a]" | a b where "xs = [a, b]"
    using assms(2) by (cases xs rule: list.exhaust [case_product list.exhaust])
      (auto simp: length_Suc_conv le_Suc_eq numeral_2_eq_2 split: list.splits)
  then show ?thesis
  proof cases
    case 1
    then show ?thesis using assms(1) by simp
  next
    case 2
    then show ?thesis using assms(1) by (simp add: mset_single_iff_right)
  next
    case 3
    then obtain c d where ys: "ys = [c, d]"
      using len by (auto simp: length_Suc_conv)
    then have "(c = a \<and> d = b) \<or> (c = b \<and> d = a)"
      using assms(1) 3 by (auto simp: add_eq_conv_ex)
    moreover have "f64_sum [b, a] = f64_sum [a, b]"
      using assms(3) 3 by (simp add: f64_sum_def f64_add_zero_left f64_add_commute [of a b])
    ultimately show ?thesis using 3 ys by auto
  qed
qed

lemma comprehension_total:
  "\<forall>x \<in> set xs. f x = Inr (g x) \<Longrightarrow> comprehension f xs = Inr (map g xs)"
  by (induction xs) simp_all

lemma ap_entry_present:
  assumes "map_of d u = Some c" and "1 \<le> k" and "k \<le> length c"
  shows "ap_entry d (int k - 1) u = Inr (c ! (k - 1))"
proof -
  have "nat (int k - 1) = k - 1" by simp
  then show ?thesis
    using assms by (simp add: ap_entry_def dict_get_Some py_index_def)
qed

lemma map_at_k_entry_value:
  assumes "\<forall>u \<in> set users. \<exists>c. map_of d u = Some c \<and> k \<le> length c" and "1 \<le> k"
  shows "map_at_k_entry d users (int k - 1) =
           sum_div (map (\<lambda>u. the (map_of d u) ! (k - 1)) users) (length users)"
proof -
  have "\<forall>u \<in> set users. ap_entry d (int k - 1) u = Inr (the (map_of d u) ! (k - 1))"
  proof
    fix u assume "u \<in> set users"
    with assms(1) obtain c where "map_of d u = Some c" "k \<le> length c" by blast
    then show "ap_entry d (int k - 1) u = Inr (the (map_of d u) ! (k - 1))"
      using ap_entry_present [OF _ assms(2)] by simp
  qed
  then have "comprehension (ap_entry d (int k - 1)) users =
      Inr (map (\<lambda>u. the (map_of d u) ! (k - 1)) users)"
    by (rule comprehension_total)
  then show ?thesis
    by (simp add: map_at_k_entry_def)
qed

text \<open>C7, as stated, fails: float64 addition is not associative. With three users
  whose AP values at cutoff 3 are the float64 values 0.1111111111111111,
  0.611111111111111 and 0.8888888888888888 (each reachable from 0/1 labels), the user
  list fiveofoh, rob, Aerion gives the MAP 0.537037037037037 and the reversed list gives
  0.5370370370370371.\<close>

theorem map_at_k_order_counterexample:
  "mset [''Aerion'', ''rob'', ''fiveofoh''] = mset [''fiveofoh'', ''rob'', ''Aerion''] \<and>
   map_at_k_entry example_ap_at_k [''fiveofoh'', ''rob'', ''Aerion''] 2 =
     Inr (Fin (2418599799884155 / 2 ^ 52)) \<and>
   map_at_k_entry example_ap_at_k [''Aerion'', ''rob'', ''fiveofoh''] 2 =
     Inr (Fin (4837199599768311 / 2 ^ 53)) \<and>
   map_at_k_entry example_ap_at_k [''Aerion'', ''rob'', ''fiveofoh''] 2 \<noteq>
     map_at_k_entry example_ap_at_k [''fiveofoh'', ''rob'', ''Aerion''] 2"
proof -
  have perm: "mset [''Aerion'', ''rob'', ''fiveofoh''] = mset [''fiveofoh'', ''rob'', ''Aerion'']"
    by (simp add: add_mset_commute)
  have a: "map_at_k_entry example_ap_at_k [''fiveofoh'', ''rob'', ''Aerion''] 2 =
      Inr (Fin (2418599799884155 / 2 ^ 52))"
    by (simp add: map_at_k_entry_def ap_entry_def dict_get_def py_index_def sum_div_def
        f64_sum_def example_ap_at_k_def f64_eval)
  have b: "map_at_k_entry example_ap_at_k [''Aerion'', ''rob'', ''fiveofoh''] 2 =
      Inr (Fin (4837199599768311 / 2 ^ 53))"
    by (simp add: map_at_k_entry_def ap_entry_def dict_get_def py_index_def sum_div_def
        f64_sum_def example_ap_at_k_def f64_eval)
  show ?thesis unfolding a b using perm by simp
qed

text \<open>C7, amended: when every user of the list has an AP curve of length at least \<open>k\<close>,
  the MAP at cutoff \<open>k\<close> (the entry of \<^verbatim>\<open>map_at_k\<close> at index \<open>k - 1\<close>) of a non-empty
  list is the float64 quotient, by the number of users, of the float64 sum of the users'
  AP values at \<open>k\<close>, added from left to right in the order of the list. A reordering of
  the list leaves it unchanged when the list has at most two users (and the values are
  float64 values), and when no partial sum is rounded in either order (the float64 sums
  equal the exact sums). With three or more users a reordering can change the last bit
  of the result.\<close>

theorem map_at_k_reordering:
  assumes "mset users' = mset users"
    and "\<forall>u \<in> set users. \<exists>c. map_of ap_at_k u = Some c \<and> k \<le> length c"
    and "1 \<le> k"
  shows "(users \<noteq> [] \<longrightarrow>
            map_at_k_entry ap_at_k users (int k - 1) =
              Inr (f64_truediv (f64_sum (map (\<lambda>u. the (map_of ap_at_k u) ! (k - 1)) users))
                     (real (length users)))) \<and>
         (length users \<le> 2 \<and> (\<forall>u \<in> set users. is_f64 (the (map_of ap_at_k u) ! (k - 1))) \<longrightarrow>
            map_at_k_entry ap_at_k users' (int k - 1) = map_at_k_entry ap_at_k users (int k - 1)) \<and>
         (f64_sum (map (\<lambda>u. the (map_of ap_at_k u) ! (k - 1)) users) =
            np_sum (map (\<lambda>u. the (map_of ap_at_k u) ! (k - 1)) users) \<and>
          f64_sum (map (\<lambda>u. the (map_of ap_at_k u) ! (k - 1)) users') =
            np_sum (map (\<lambda>u. the (map_of ap_at_k u) ! (k - 1)) users') \<longrightarrow>
            map_at_k_entry ap_at_k users' (int k - 1) = map_at_k_entry ap_at_k users (int k - 1))"
proof -
  let ?g = "\<lambda>u. the (map_of ap_at_k u) ! (k - 1)"
  have set_eq: "set users' = set users" using assms(1) by (rule mset_eq_setD)
  have len_eq: "length users' = length users" using assms(1) by (rule mset_eq_length)
  have a: "map_at_k_entry ap_at_k users (int k - 1) = sum_div (map ?g users) (length users)"
    using assms(2,3) by (rule map_at_k_entry_value)
  have b: "map_at_k_entry ap_at_k users' (int k - 1) = sum_div (map ?g users') (length users')"
    using assms(2,3) set_eq by (intro map_at_k_entry_value) simp_all
  have mean: "map_at_k_entry ap_at_k users (int k - 1) =
      Inr (f64_truediv (f64_sum (map ?g users)) (real (length users)))" if "users \<noteq> []"
    using a that by (simp add: sum_div_def)
  have inv: "map_at_k_entry ap_at_k users' (int k - 1) = map_at_k_entry ap_at_k users (int k - 1)"
    if short: "length users \<le> 2" and repr: "\<forall>u \<in> set users. is_f64 (?g u)"
  proof -
    have "mset (map ?g users') = mset (map ?g users)" using assms(1) by simp
    moreover have "length (map ?g users) \<le> 2" using short by simp
    moreover have "\<forall>x \<in> set (map ?g users). is_f64 x" using repr by simp
    ultimately have sums: "f64_sum (map ?g users') = f64_sum (map ?g users)"
      by (rule f64_sum_two_orders)
    have empty: "users' = [] \<longleftrightarrow> users = []" using len_eq by auto
    show ?thesis using a b sums len_eq empty by (simp add: sum_div_def)
  qed
  have exact: "map_at_k_entry ap_at_k users' (int k - 1) = map_at_k_entry ap_at_k users (int k - 1)"
    if "f64_sum (map ?g users) = np_sum (map ?g users)"
      and "f64_sum (map ?g users') = np_sum (map ?g users')"
  proof -
    have "mset (map ?g users') = mset (map ?g users)" using assms(1) by simp
    then have "np_sum (map ?g users') = np_sum (map ?g users)" by (rule np_sum_mset)
    then have sums: "f64_sum (map ?g users') = f64_sum (map ?g users)" using that by simp
    have empty: "users' = [] \<longleftrightarrow> users = []" using len_eq by auto
    show ?thesis using a b sums len_eq empty by (simp add: sum_div_def)
  qed
  show ?thesis using mean inv exact by blast
qed

theorem map_at_k_reordering_witness:
  "mset [''Aerion'', ''rob''] = mset [''rob'', ''Aerion''] \<and>
   length [''rob'', ''Aerion''] \<le> 2 \<and>
   map_of example_ap_at_k ''rob'' = Some [Fin 1, Fin (3 / 4), Fin (5504399544563939 / 2 ^ 53)] \<and>
   map_of example_ap_at_k ''Aerion'' = Some [Fin 1, Fin 1, Fin (2001599834386887 / 2 ^ 51)] \<and>
   is_f64 (Fin (5504399544563939 / 2 ^ 53)) \<and> is_f64 (Fin (2001599834386887 / 2 ^ 51)) \<and>
   map_at_k_entry example_ap_at_k [''Aerion'', ''rob''] 2 =
     map_at_k_entry example_ap_at_k [''rob'', ''Aerion''] 2 \<and>
   map_at_k_entry example_ap_at_k [''rob'', ''Aerion''] 2 = Inr (Fin (3 / 4)) \<and>
   f64_sum [Fin 0, Fin 1, Fin 1] = np_sum [Fin 0, Fin 1, Fin 1] \<and>
   f64_sum [Fin 1, Fin 1, Fin 0] = np_sum [Fin 1, Fin 1, Fin 0] \<and>
   map_at_k_entry example_ap_at_k [''Aerion'', ''rob'', ''fiveofoh''] 0 =
     map_at_k_entry example_ap_at_k [''fiveofoh'', ''rob'', ''Aerion''] 0"
proof -
  have perm: "mset [''Aerion'', ''rob''] = mset [''rob'', ''Aerion'']"
    by (simp add: add_mset_commute)
  have rob: "map_of example_ap_at_k ''rob'' =
      Some [Fin 1, Fin (3 / 4), Fin (5504399544563939 / 2 ^ 53)]"
    and aerion: "map_of example_ap_at_k ''Aerion'' =
      Some [Fin 1, Fin 1, Fin (2001599834386887 / 2 ^ 51)]"
    by (simp_all add: example_ap_at_k_def)
  have repr: "is_f64 (Fin (5504399544563939 / 2 ^ 53))" "is_f64 (Fin (2001599834386887 / 2 ^ 51))"
    by (simp_all add: is_f64_def f64_eval)
  have pres: "\<forall>u \<in> set [''rob'', ''Aerion''].
      \<exists>c. map_of example_ap_at_k u = Some c \<and> 3 \<le> length c"
    using rob aerion by simp
  have reprs: "\<forall>u \<in> set [''rob'', ''Aerion'']. is_f64 (the (map_of example_ap_at_k u) ! (3 - 1))"
    using rob aerion repr by simp
  have three: "int 3 - 1 = 2" by simp
  have short: "length [''rob'', ''Aerion''] \<le> 2" by simp
  have ne: "[''rob'', ''Aerion''] \<noteq> []" by simp
  from map_at_k_reordering [OF perm pres, of ]
  have mean: "map_at_k_entry example_ap_at_k [''rob'', ''Aerion''] (int 3 - 1) =
      Inr (f64_truediv
            (f64_sum (map (\<lambda>u. the (map_of example_ap_at_k u) ! (3 - 1)) [''rob'', ''Aerion'']))
            (real (length [''rob'', ''Aerion''])))"
    and inv: "map_at_k_entry example_ap_at_k [''Aerion'', ''rob''] (int 3 - 1) =
      map_at_k_entry example_ap_at_k [''rob'', ''Aerion''] (int 3 - 1)"
    using ne short reprs by simp_all
  have "f64_truediv
          (f64_sum (map (\<lambda>u. the (map_of example_ap_at_k u) ! (3 - 1)) [''rob'', ''Aerion'']))
          (real (length [''rob'', ''Aerion''])) = Fin (3 / 4)"
    by (simp add: rob aerion f64_sum_def f64_eval)
  then have two: "map_at_k_entry example_ap_at_k [''Aerion'', ''rob''] 2 =
      map_at_k_entry example_ap_at_k [''rob'', ''Aerion''] 2"
    "map_at_k_entry example_ap_at_k [''rob'', ''Aerion''] 2 = Inr (Fin (3 / 4))"
    using inv mean unfolding three by simp_all
  have perm3: "mset [''Aerion'', ''rob'', ''fiveofoh''] = mset [''fiveofoh'', ''rob'', ''Aerion'']"
    by (simp add: add_mset_commute)
  have five: "map_of example_ap_at_k ''fiveofoh'' =
      Some [Fin 0, Fin 0, Fin (2001599834386887 / 2 ^ 54)]"
    by (simp add: example_ap_at_k_def)
  have pres3: "\<forall>u \<in> set [''fiveofoh'', ''rob'', ''Aerion''].
      \<exists>c. map_of example_ap_at_k u = Some c \<and> 1 \<le> length c"
    using rob aerion five by simp
  have sums: "f64_sum [Fin 0, Fin 1, Fin 1] = np_sum [Fin 0, Fin 1, Fin 1]"
    "f64_sum [Fin 1, Fin 1, Fin 0] = np_sum [Fin 1, Fin 1, Fin 0]"
    by (simp_all add: f64_sum_def np_sum_def f64_eval)
  have one: "int 1 - 1 = 0" by simp
  have "map_at_k_entry example_ap_at_k [''Aerion'', ''rob'', ''fiveofoh''] (int 1 - 1) =
      map_at_k_entry example_ap_at_k [''fiveofoh'', ''rob'', ''Aerion''] (int 1 - 1)"
    using map_at_k_reordering [OF perm3 pres3, of ] sums rob aerion five by simp
  then have three_users:
    "map_at_k_entry example_ap_at_k [''Aerion'', ''rob'', ''fiveofoh''] 0 =
      map_at_k_entry example_ap_at_k [''fiveofoh'', ''rob'', ''Aerion''] 0"
    unfolding one .
  show ?thesis
    using perm short rob aerion repr two sums three_users by simp
qed

subsection \<open>What \<^verbatim>\<open>calculate_ap\<close> changes\<close>

lemma ap_loop_store_result:
  "ap < length h \<Longrightarrow> h ! ap \<noteq> [] \<Longrightarrow>
   \<exists>acc. ap_loop_store h ap ps = Inr (h[ap := acc]) \<and> ap_loop (h ! ap) ps = Inr acc"
proof (induction ps arbitrary: h)
  case Nil
  then show ?case by simp
next
  case (Cons p ps)
  let ?h = "h[ap := h ! ap @ [np_add (last (h ! ap)) p]]"
  have "ap < length ?h" "?h ! ap \<noteq> []" using Cons.prems by simp_all
  from Cons.IH [OF this] obtain acc where
    "ap_loop_store ?h ap ps = Inr (?h[ap := acc])" "ap_loop (?h ! ap) ps = Inr acc"
    by blast
  then have "ap_loop_store h ap (p # ps) = Inr (h[ap := acc])"
    "ap_loop (h ! ap) (p # ps) = Inr acc"
    using Cons.prems by (simp_all add: py_index_last)
  then show ?case by blast
qed

lemma calculate_ap_store_result:
  assumes "a < length h" and "h ! a = p0 # ps" and "ap_loop [p0] ps = Inr acc"
  shows "calculate_ap_store h a = Inr (h @ [acc, ps, ap_divide acc], length h + 2)"
proof -
  let ?h2 = "(h @ [[p0]]) @ [ps]"
  have ap: "length h < length ?h2" "?h2 ! length h = [p0]"
    by (simp_all add: nth_append)
  from ap_loop_store_result [of "length h" ?h2 ps] ap obtain acc' where
    st: "ap_loop_store ?h2 (length h) ps = Inr (?h2[length h := acc'])" and
    pu: "ap_loop [p0] ps = Inr acc'"
    by auto
  have acc': "acc' = acc" using pu assms(3) by simp
  have h3: "?h2[length h := acc] = h @ [acc, ps]"
    by (simp add: list_update_append)
  have "(h @ [[p0]]) ! a = p0 # ps" using assms(1,2) by (simp add: nth_append)
  moreover have "?h2 ! length (h @ [[p0]]) = ps" by (simp add: nth_append)
  moreover have "(h @ [acc, ps]) ! length h = acc" by (simp add: nth_append)
  ultimately show ?thesis
    using assms(2) st
    by (simp add: calculate_ap_store_def alloc_def py_index_first acc' h3)
qed

text \<open>C10, as stated, fails on the empty sequence: \<^verbatim>\<open>calculate_ap\<close> raises there and
  returns no sequence, of length 0 or other.\<close>

theorem calculate_ap_store_empty_counterexample:
  "calculate_ap_store [[]] 0 = Inl IndexError"
  by (simp add: calculate_ap_store_def py_index_def)

text \<open>C10, amended: for every non-empty input sequence, \<^verbatim>\<open>calculate_ap\<close> returns a
  list object that did not exist before the call, of the same length as the input and
  holding the value the function computes; the input object and every other object that
  existed before the call are unchanged. On the empty sequence it raises IndexError.\<close>

theorem calculate_ap_store_frame:
  assumes "a < length h"
  shows "(h ! a = [] \<longrightarrow> calculate_ap_store h a = Inl IndexError) \<and>
         (h ! a \<noteq> [] \<longrightarrow> (\<exists>h' r. calculate_ap_store h a = Inr (h', r))) \<and>
         (\<forall>h' r. calculate_ap_store h a = Inr (h', r) \<longrightarrow>
            length h \<le> r \<and> r < length h' \<and>
            length (h' ! r) = length (h ! a) \<and>
            h' ! a = h ! a \<and>
            (\<forall>b < length h. h' ! b = h ! b) \<and>
            calculate_ap (h ! a) = Inr (h' ! r))"
proof (cases "h ! a")
  case Nil
  then show ?thesis
    by (simp add: calculate_ap_store_def py_index_first)
next
  case (Cons p0 ps)
  obtain acc where acc: "ap_loop [p0] ps = Inr acc"
    using ap_loop_result [of "[p0]" ps] by simp
  let ?h' = "h @ [acc, ps, ap_divide acc]"
  have run: "calculate_ap_store h a = Inr (?h', length h + 2)"
    using assms Cons acc by (rule calculate_ap_store_result)
  have pure: "calculate_ap (h ! a) = Inr (ap_divide acc)"
    using acc by (simp add: calculate_ap_def Cons py_index_first)
  have res: "?h' ! (length h + 2) = ap_divide acc"
    by (simp add: nth_append)
  have old: "?h' ! b = h ! b" if "b < length h" for b
    using that by (simp add: nth_append)
  have "length (ap_divide acc) = length (h ! a)"
    using pure calculate_ap_closed_form [of "h ! a"] Cons by auto
  then show ?thesis
    using run pure res old assms Cons by simp
qed

theorem calculate_ap_store_frame_witness:
  "(0::nat) < length example_store \<and> example_store ! 0 \<noteq> [] \<and>
   (\<exists>h' r. calculate_ap_store example_store 0 = Inr (h', r) \<and>
      length example_store \<le> r \<and> length (h' ! r) = 2 \<and>
      h' ! 0 = [Fin 1, Fin (1 / 2)] \<and> h' ! r = [Fin 1, Fin (3 / 4)])"
proof -
  have a: "(0::nat) < length example_store" by (simp add: example_store_def)
  have ne: "example_store ! 0 \<noteq> []" by (simp add: example_store_def)
  have pure: "calculate_ap (example_store ! 0) = Inr [Fin 1, Fin (3 / 4)]"
    by (simp add: example_store_def calculate_ap_closed_form np_sum_def
        upt_rec [of _ "Suc _"] numeral_2_eq_2)
  from calculate_ap_store_frame [OF a] ne obtain h' r where
    run: "calculate_ap_store example_store 0 = Inr (h', r)"
    by blast
  with calculate_ap_store_frame [OF a] have
    "length example_store \<le> r" "length (h' ! r) = length (example_store ! 0)"
    "h' ! 0 = example_store ! 0" "calculate_ap (example_store ! 0) = Inr (h' ! r)"
    by blast+
  then show ?thesis
    using run a ne pure by (auto simp: example_store_def)
qed

end
